theory Spec2Isabelle
  imports Main "HOL-Library.Word"
begin

unbundle bit_operations_syntax

section \<open>The pixel driver of the blink tile (cores/blinkcore/pixel.cpp)\<close>

text \<open>
  The driver multiplexes six RGB pixels. Its state is the three raw compare-value
  arrays, the sequencer variables \<open>currentPixel\<close> and \<open>phase\<close>, the six anode lines,
  the blue charge-pump sink line and the registers of Timer0 and Timer2. Every C
  statement of the interrupt handler and of the lifecycle functions is one state
  transformer; a function body is the list of its statements, run in order.

  What is not modelled: the pin direction registers, the red/green/blue cathode port
  bits written once by \<open>setupPixelPins\<close>, the global interrupt flag (\<open>sei\<close>), and the
  counting of the timers themselves (a timer register holds what was last written).
\<close>

subsection \<open>Data\<close>

type_synonym uint8_t = "8 word"

text \<open>
  Modelled from the spec: \<open>PIXEL_COUNT\<close> and \<open>FACE_COUNT\<close> come from hardware.h and
  blinkcore.h, which are not among the sources; the spec fixes the pixel count at
  N = 6, and \<open>activateAnode\<close> has exactly the six cases 0..5.
\<close>

definition PIXEL_COUNT :: nat where
  "PIXEL_COUNT = 6"

definition FACE_COUNT :: nat where
  "FACE_COUNT = 6"

datatype anode_line = PIXEL1 | PIXEL2 | PIXEL3 | PIXEL4 | PIXEL5 | PIXEL6

datatype fault = OutOfBounds

record pixel_state =
  rawValueR :: "uint8_t list"
  rawValueG :: "uint8_t list"
  rawValueB :: "uint8_t list"
  currentPixel :: uint8_t
  phase :: uint8_t
  anodes :: "anode_line \<Rightarrow> bool"
  BLUE_SINK :: bool
  OCR0A :: uint8_t
  OCR0B :: uint8_t
  OCR2B :: uint8_t
  TCNT0 :: uint8_t
  TCNT2 :: uint8_t
  TCCR0A :: uint8_t
  TCCR0B :: uint8_t
  TCCR2A :: uint8_t
  TCCR2B :: uint8_t
  TIMSK0 :: uint8_t
  frame_callbacks :: nat

text \<open>
  \<open>anodes s l\<close> is the level of the port bit of line \<open>l\<close> (True = high = anode
  active). \<open>BLUE_SINK s\<close> is the level of the charge-pump sink bit: high is idle,
  low is charging. \<open>frame_callbacks\<close> counts the calls of the frame hook.
\<close>

text \<open>A C array access outside the array is undefined behaviour: here a fault.\<close>

definition array_read :: "uint8_t list \<Rightarrow> uint8_t \<Rightarrow> fault + uint8_t" where
  "array_read a i = (if unat i < length a then Inr (a ! unat i) else Inl OutOfBounds)"

definition array_write :: "uint8_t list \<Rightarrow> uint8_t \<Rightarrow> uint8_t \<Rightarrow> fault + uint8_t list" where
  "array_write a i v = (if unat i < length a then Inr (a[unat i := v]) else Inl OutOfBounds)"

text \<open>The three arrays are declared with \<open>PIXEL_COUNT\<close> elements each.\<close>

definition store_ok :: "pixel_state \<Rightarrow> bool" where
  "store_ok s \<longleftrightarrow>
     length (rawValueR s) = PIXEL_COUNT \<and>
     length (rawValueG s) = PIXEL_COUNT \<and>
     length (rawValueB s) = PIXEL_COUNT"

subsection \<open>Statements and their sequencing\<close>

type_synonym stmt = "pixel_state \<Rightarrow> fault + pixel_state"

definition ok :: "(pixel_state \<Rightarrow> pixel_state) \<Rightarrow> stmt" where
  "ok f s = Inr (f s)"

fun exec :: "stmt list \<Rightarrow> pixel_state \<Rightarrow> fault + pixel_state" where
  "exec [] s = Inr s"
| "exec (c # cs) s = (case c s of Inl e \<Rightarrow> Inl e | Inr s' \<Rightarrow> exec cs s')"

text \<open>The states after each completed statement, in order.\<close>

fun exec_trace :: "stmt list \<Rightarrow> pixel_state \<Rightarrow> pixel_state list" where
  "exec_trace [] s = []"
| "exec_trace (c # cs) s = (case c s of Inl e \<Rightarrow> [] | Inr s' \<Rightarrow> s' # exec_trace cs s')"

subsection \<open>Register bits\<close>

text \<open>
  The bit numbers are those of avr/io.h for the ATmega168/328 family; \<open>_BV(b)\<close> is
  \<open>1 << b\<close>, \<open>SBI(x,b)\<close> is \<open>x |= _BV(b)\<close>.
\<close>

definition BV :: "nat \<Rightarrow> uint8_t" where
  "BV b = push_bit b 1"

definition WGM00 :: nat where "WGM00 = 0"
definition WGM01 :: nat where "WGM01 = 1"
definition COM0A1 :: nat where "COM0A1 = 7"
definition COM0B1 :: nat where "COM0B1 = 5"
definition COM2B1 :: nat where "COM2B1 = 5"
definition FOC0A :: nat where "FOC0A = 7"
definition FOC0B :: nat where "FOC0B = 6"
definition FOC2B :: nat where "FOC2B = 6"
definition CS01 :: nat where "CS01 = 1"
definition CS21 :: nat where "CS21 = 1"
definition TOIE0 :: nat where "TOIE0 = 0"

subsection \<open>Pins and timers\<close>

text \<open>\<open>setupPixelPins\<close>: of its writes, the one to a modelled line sets the sink high.\<close>

definition setupPixelPins :: "stmt list" where
  "setupPixelPins = [ok (\<lambda>s. s\<lparr>BLUE_SINK := True\<rparr>)]"

definition setupTimers :: "stmt list" where
  "setupTimers = [ok (\<lambda>s. s\<lparr>TIMSK0 := BV TOIE0\<rparr>)]"

definition pixel_init :: "pixel_state \<Rightarrow> fault + pixel_state" where
  "pixel_init = exec (setupPixelPins @ setupTimers)"

definition pixelTimersOn :: "stmt list" where
  "pixelTimersOn =
     [ok (\<lambda>s. s\<lparr>OCR0A := 255\<rparr>),
      ok (\<lambda>s. s\<lparr>OCR0B := 255\<rparr>),
      ok (\<lambda>s. s\<lparr>TCNT0 := 0\<rparr>),
      ok (\<lambda>s. s\<lparr>TCCR0B := TCCR0B s OR BV FOC0A\<rparr>),
      ok (\<lambda>s. s\<lparr>TCCR0B := TCCR0B s OR BV FOC0B\<rparr>),
      ok (\<lambda>s. s\<lparr>TCCR0A := BV WGM00 OR BV WGM01 OR BV COM0A1 OR BV COM0B1\<rparr>),
      ok (\<lambda>s. s\<lparr>TCCR2A := BV COM2B1 OR BV WGM01 OR BV WGM00\<rparr>),
      ok (\<lambda>s. s\<lparr>OCR2B := 255\<rparr>),
      ok (\<lambda>s. s\<lparr>TCNT2 := 0\<rparr>),
      ok (\<lambda>s. s\<lparr>TCCR2B := TCCR2B s OR BV FOC2B\<rparr>),
      ok (\<lambda>s. s\<lparr>TCCR0B := BV CS01\<rparr>),
      ok (\<lambda>s. s\<lparr>TCCR2B := BV CS21\<rparr>)]"

text \<open>\<open>activateAnode\<close>: a switch over the line number with no default case.\<close>

definition activateAnode :: "uint8_t \<Rightarrow> pixel_state \<Rightarrow> pixel_state" where
  "activateAnode line s =
     (if line = 0 then s\<lparr>anodes := (anodes s)(PIXEL1 := True)\<rparr>
      else if line = 1 then s\<lparr>anodes := (anodes s)(PIXEL2 := True)\<rparr>
      else if line = 2 then s\<lparr>anodes := (anodes s)(PIXEL3 := True)\<rparr>
      else if line = 3 then s\<lparr>anodes := (anodes s)(PIXEL4 := True)\<rparr>
      else if line = 4 then s\<lparr>anodes := (anodes s)(PIXEL5 := True)\<rparr>
      else if line = 5 then s\<lparr>anodes := (anodes s)(PIXEL6 := True)\<rparr>
      else s)"

definition deactivateAnodes :: "stmt list" where
  "deactivateAnodes =
     [ok (\<lambda>s. s\<lparr>anodes := (anodes s)(PIXEL1 := False)\<rparr>),
      ok (\<lambda>s. s\<lparr>anodes := (anodes s)(PIXEL2 := False)\<rparr>),
      ok (\<lambda>s. s\<lparr>anodes := (anodes s)(PIXEL3 := False)\<rparr>),
      ok (\<lambda>s. s\<lparr>anodes := (anodes s)(PIXEL4 := False)\<rparr>),
      ok (\<lambda>s. s\<lparr>anodes := (anodes s)(PIXEL5 := False)\<rparr>),
      ok (\<lambda>s. s\<lparr>anodes := (anodes s)(PIXEL6 := False)\<rparr>)]"

subsection \<open>The interrupt handler\<close>

text \<open>
  Modelled from the spec: \<open>CALLBACK_PIXEL_FRAME::invokeCallback\<close> is declared in
  callbacks.h, which is not among the sources. Under fault-free timing (the hook is
  not still running from an earlier call) it calls the frame hook once; the model
  counts the call.
\<close>

definition invokeCallback :: "pixel_state \<Rightarrow> pixel_state" where
  "invokeCallback s = s\<lparr>frame_callbacks := frame_callbacks s + 1\<rparr>"

text \<open>\<open>if (rawValueB[currentPixel] != 255) CBI(BLUE_SINK_PORT, BLUE_SINK_BIT);\<close>\<close>

definition charge_if_blue :: stmt where
  "charge_if_blue s =
     (case array_read (rawValueB s) (currentPixel s) of
        Inl e \<Rightarrow> Inl e
      | Inr v \<Rightarrow> Inr (if v \<noteq> 255 then s\<lparr>BLUE_SINK := False\<rparr> else s))"

definition load_OCR2B :: stmt where
  "load_OCR2B s =
     (case array_read (rawValueB s) (currentPixel s) of
        Inl e \<Rightarrow> Inl e
      | Inr v \<Rightarrow> Inr (s\<lparr>OCR2B := v\<rparr>))"

definition load_OCR0A :: stmt where
  "load_OCR0A s =
     (case array_read (rawValueR s) (currentPixel s) of
        Inl e \<Rightarrow> Inl e
      | Inr v \<Rightarrow> Inr (s\<lparr>OCR0A := v\<rparr>))"

definition load_OCR0B :: stmt where
  "load_OCR0B s =
     (case array_read (rawValueG s) (currentPixel s) of
        Inl e \<Rightarrow> Inl e
      | Inr v \<Rightarrow> Inr (s\<lparr>OCR0B := v\<rparr>))"

definition phase_incr :: stmt where
  "phase_incr = ok (\<lambda>s. s\<lparr>phase := phase s + 1\<rparr>)"

text \<open>The statements of the case that the switch on \<open>phase\<close> selects.\<close>

definition pixel_isr_body :: "uint8_t \<Rightarrow> stmt list" where
  "pixel_isr_body ph =
     (if ph = 0 then
        deactivateAnodes @
        [ok (\<lambda>s. s\<lparr>currentPixel := currentPixel s + 1\<rparr>),
         ok (\<lambda>s. if currentPixel s = of_nat PIXEL_COUNT then s\<lparr>currentPixel := 0\<rparr> else s),
         charge_if_blue,
         phase_incr]
      else if ph = 1 then
        [ok (\<lambda>s. s\<lparr>BLUE_SINK := True\<rparr>),
         ok (\<lambda>s. activateAnode (currentPixel s) s),
         load_OCR2B,
         phase_incr]
      else if ph = 2 then
        [ok (\<lambda>s. s\<lparr>OCR2B := 255\<rparr>),
         load_OCR0A,
         phase_incr]
      else if ph = 3 then
        [ok (\<lambda>s. s\<lparr>OCR0A := 255\<rparr>),
         load_OCR0B,
         phase_incr]
      else if ph = 4 then
        [ok (\<lambda>s. s\<lparr>OCR0B := 255\<rparr>),
         ok (\<lambda>s. s\<lparr>phase := 0\<rparr>),
         ok invokeCallback]
      else [])"

definition pixel_isr :: "pixel_state \<Rightarrow> fault + pixel_state" where
  "pixel_isr s = exec (pixel_isr_body (phase s)) s"

text \<open>\<open>n\<close> timer overflows in a row, the handler running to completion each time.\<close>

fun isr_iter :: "nat \<Rightarrow> pixel_state \<Rightarrow> fault + pixel_state" where
  "isr_iter 0 s = Inr s"
| "isr_iter (Suc n) s = (case pixel_isr s of Inl e \<Rightarrow> Inl e | Inr s' \<Rightarrow> isr_iter n s')"

subsection \<open>Lifecycle\<close>

definition pixelTimerOff :: "stmt list" where
  "pixelTimerOff =
     [ok (\<lambda>s. s\<lparr>TCCR0B := 0\<rparr>)] @
     deactivateAnodes @
     [ok (\<lambda>s. s\<lparr>BLUE_SINK := True\<rparr>),
      ok (\<lambda>s. s\<lparr>TCCR2B := 0\<rparr>),
      ok (\<lambda>s. s\<lparr>TCCR0A := 0\<rparr>),
      ok (\<lambda>s. s\<lparr>TCCR2A := 0\<rparr>)]"

definition pixel_disable :: "pixel_state \<Rightarrow> fault + pixel_state" where
  "pixel_disable = exec pixelTimerOff"

subsection \<open>Gamma table and colour mapping\<close>

definition gamma8 :: "uint8_t list" where
  "gamma8 =
    [0,  0,  0,  0,  0,  0,  0,  0,  0,  0,  0,  0,  0,  0,  0,  0,
     0,  0,  0,  0,  0,  0,  0,  0,  0,  0,  0,  0,  1,  1,  1,  1,
     1,  1,  1,  1,  1,  1,  1,  1,  1,  2,  2,  2,  2,  2,  2,  2,
     2,  3,  3,  3,  3,  3,  3,  3,  4,  4,  4,  4,  4,  5,  5,  5,
     5,  6,  6,  6,  6,  7,  7,  7,  7,  8,  8,  8,  9,  9,  9, 10,
     10, 10, 11, 11, 11, 12, 12, 13, 13, 13, 14, 14, 15, 15, 16, 16,
     17, 17, 18, 18, 19, 19, 20, 20, 21, 21, 22, 22, 23, 24, 24, 25,
     25, 26, 27, 27, 28, 29, 29, 30, 31, 32, 32, 33, 34, 35, 35, 36,
     37, 38, 39, 39, 40, 41, 42, 43, 44, 45, 46, 47, 48, 49, 50, 50,
     51, 52, 54, 55, 56, 57, 58, 59, 60, 61, 62, 63, 64, 66, 67, 68,
     69, 70, 72, 73, 74, 75, 77, 78, 79, 81, 82, 83, 85, 86, 87, 89,
     90, 92, 93, 95, 96, 98, 99,101,102,104,105,107,109,110,112,114,
     115,117,119,120,122,124,126,127,129,131,133,135,137,138,140,142,
     144,146,148,150,152,154,156,158,160,162,164,167,169,171,173,175,
     177,180,182,184,186,189,191,193,196,198,200,203,205,208,210,213,
     215,218,220,223,225,228,231,233,236,239,241,244,247,249,252,255]"

definition set_rawValueR :: "uint8_t \<Rightarrow> uint8_t \<Rightarrow> stmt" where
  "set_rawValueR p r s =
     (case array_read gamma8 r of
        Inl e \<Rightarrow> Inl e
      | Inr v \<Rightarrow>
          (case array_write (rawValueR s) p (255 - v div 3) of
             Inl e \<Rightarrow> Inl e
           | Inr a \<Rightarrow> Inr (s\<lparr>rawValueR := a\<rparr>)))"

definition set_rawValueG :: "uint8_t \<Rightarrow> uint8_t \<Rightarrow> stmt" where
  "set_rawValueG p g s =
     (case array_read gamma8 g of
        Inl e \<Rightarrow> Inl e
      | Inr v \<Rightarrow>
          (case array_write (rawValueG s) p (255 - v div 2) of
             Inl e \<Rightarrow> Inl e
           | Inr a \<Rightarrow> Inr (s\<lparr>rawValueG := a\<rparr>)))"

definition set_rawValueB :: "uint8_t \<Rightarrow> uint8_t \<Rightarrow> stmt" where
  "set_rawValueB p b s =
     (case array_read gamma8 b of
        Inl e \<Rightarrow> Inl e
      | Inr v \<Rightarrow>
          (case array_write (rawValueB s) p (255 - v div 2) of
             Inl e \<Rightarrow> Inl e
           | Inr a \<Rightarrow> Inr (s\<lparr>rawValueB := a\<rparr>)))"

definition pixel_setRGB :: "uint8_t \<Rightarrow> uint8_t \<Rightarrow> uint8_t \<Rightarrow> uint8_t \<Rightarrow> stmt" where
  "pixel_setRGB p r g b = exec [set_rawValueR p r, set_rawValueG p g, set_rawValueB p b]"

text \<open>
  Modelled from the spec: \<open>FOREACH_FACE(i)\<close> is a macro of blinkcore.h, which is not
  among the sources; per the spec the call is applied to every pixel, \<open>i\<close> running
  from 0 to \<open>FACE_COUNT - 1\<close>.
\<close>

definition pixel_SetAllRGB :: "uint8_t \<Rightarrow> uint8_t \<Rightarrow> uint8_t \<Rightarrow> stmt" where
  "pixel_SetAllRGB r g b = exec (map (\<lambda>i. pixel_setRGB (of_nat i) r g b) [0..<FACE_COUNT])"

definition pixel_enable :: "pixel_state \<Rightarrow> fault + pixel_state" where
  "pixel_enable = exec (pixel_SetAllRGB 0 0 0 # pixelTimersOn)"

subsection \<open>The state at reset\<close>

text \<open>
  At reset the port and timer registers read zero and the static variables of the
  driver are zero-initialised.
\<close>

definition reset_state :: pixel_state where
  "reset_state =
     \<lparr>rawValueR = replicate PIXEL_COUNT 0,
      rawValueG = replicate PIXEL_COUNT 0,
      rawValueB = replicate PIXEL_COUNT 0,
      currentPixel = 0,
      phase = 0,
      anodes = (\<lambda>l. False),
      BLUE_SINK = False,
      OCR0A = 0, OCR0B = 0, OCR2B = 0,
      TCNT0 = 0, TCNT2 = 0,
      TCCR0A = 0, TCCR0B = 0, TCCR2A = 0, TCCR2B = 0,
      TIMSK0 = 0,
      frame_callbacks = 0\<rparr>"

subsection \<open>Observations of the sequencer\<close>

text \<open>The ranges of the two sequencer variables.\<close>

definition seq_inv :: "pixel_state \<Rightarrow> bool" where
  "seq_inv s \<longleftrightarrow> unat (phase s) < 5 \<and> unat (currentPixel s) < PIXEL_COUNT"

text \<open>The pair the sequencer shows after \<open>k\<close> interrupts.\<close>

definition visited :: "nat \<Rightarrow> pixel_state \<Rightarrow> fault + (uint8_t \<times> uint8_t)" where
  "visited k s =
     (case isr_iter k s of Inl e \<Rightarrow> Inl e | Inr t \<Rightarrow> Inr (currentPixel t, phase t))"

text \<open>
  The order the specification describes: pixel 0 first, each pixel with its phases
  0..4, then the next pixel. This definition follows the specification's words; it is
  compared with \<open>visited\<close>, which follows the code.
\<close>

definition spec_round_robin :: "nat \<Rightarrow> uint8_t \<times> uint8_t" where
  "spec_round_robin k = (of_nat ((k div 5) mod 6), of_nat (k mod 5))"

text \<open>
  The duty value in the specification's words, 255 - gamma(v) / d, for a divisor
  \<open>d\<close>; compared with what \<open>pixel_setRGB\<close> stores.
\<close>

definition spec_duty :: "nat \<Rightarrow> uint8_t \<Rightarrow> nat" where
  "spec_duty d v = 255 - unat (gamma8 ! unat v) div d"

text \<open>The number of frame-hook calls counted after \<open>k\<close> interrupts.\<close>

definition callbacks_after :: "nat \<Rightarrow> pixel_state \<Rightarrow> fault + nat" where
  "callbacks_after k s =
     (case isr_iter k s of Inl e \<Rightarrow> Inl e | Inr t \<Rightarrow> Inr (frame_callbacks t))"

subsection \<open>Observations of the charge pump and the anodes\<close>

definition anode_active :: "pixel_state \<Rightarrow> bool" where
  "anode_active s \<longleftrightarrow>
     anodes s PIXEL1 \<or> anodes s PIXEL2 \<or> anodes s PIXEL3 \<or>
     anodes s PIXEL4 \<or> anodes s PIXEL5 \<or> anodes s PIXEL6"

definition charging :: "pixel_state \<Rightarrow> bool" where
  "charging s \<longleftrightarrow> \<not> BLUE_SINK s"

definition pump_safe :: "pixel_state \<Rightarrow> bool" where
  "pump_safe s \<longleftrightarrow> \<not> (charging s \<and> anode_active s)"

text \<open>Some anode line goes from low to high between two states.\<close>

definition anode_rises :: "pixel_state \<Rightarrow> pixel_state \<Rightarrow> bool" where
  "anode_rises t t' \<longleftrightarrow>
     (anodes t' PIXEL1 \<and> \<not> anodes t PIXEL1) \<or> (anodes t' PIXEL2 \<and> \<not> anodes t PIXEL2) \<or>
     (anodes t' PIXEL3 \<and> \<not> anodes t PIXEL3) \<or> (anodes t' PIXEL4 \<and> \<not> anodes t PIXEL4) \<or>
     (anodes t' PIXEL5 \<and> \<not> anodes t PIXEL5) \<or> (anodes t' PIXEL6 \<and> \<not> anodes t PIXEL6)"

text \<open>
  What holds of the lines between two interrupts: entering phase 1 all anodes are
  low (the pump may be charging); entering any other phase the sink is high.
\<close>

definition pump_inv :: "pixel_state \<Rightarrow> bool" where
  "pump_inv s \<longleftrightarrow> (if phase s = 1 then \<not> anode_active s else BLUE_SINK s)"

text \<open>The states one run of the handler passes through, statement by statement.\<close>

definition isr_visits :: "pixel_state \<Rightarrow> pixel_state list" where
  "isr_visits s = exec_trace (pixel_isr_body (phase s)) s"

fun adjacent :: "'a list \<Rightarrow> ('a \<times> 'a) list" where
  "adjacent (x # y # zs) = (x, y) # adjacent (y # zs)"
| "adjacent zs = []"

text \<open>
  One statement of a handler run entered at state \<open>s\<close>, leading from \<open>t\<close> to \<open>t'\<close>,
  respects the pump protocol: if it starts charging, the run is a phase-0 run and all
  anodes are low before and after it; if it raises an anode line, the run is a
  phase-1 run and the sink is at idle (high) already before the statement, and after.
\<close>

definition pump_step_ok :: "pixel_state \<Rightarrow> pixel_state \<times> pixel_state \<Rightarrow> bool" where
  "pump_step_ok s = (\<lambda>(t, t').
     (charging t' \<and> \<not> charging t \<longrightarrow>
        phase s = 0 \<and> \<not> anode_active t \<and> \<not> anode_active t') \<and>
     (anode_rises t t' \<longrightarrow> phase s = 1 \<and> BLUE_SINK t \<and> BLUE_SINK t'))"

text \<open>
  The states between two interrupts: the driver is initialised from reset, and from
  then on the handler runs and the foreground calls \<open>pixel_setRGB\<close>,
  \<open>pixel_enable\<close> and \<open>pixel_disable\<close>, in any order.
\<close>

inductive reachable :: "pixel_state \<Rightarrow> bool" where
  reach_init: "pixel_init reset_state = Inr s \<Longrightarrow> reachable s"
| reach_isr: "reachable s \<Longrightarrow> pixel_isr s = Inr t \<Longrightarrow> reachable t"
| reach_setRGB: "reachable s \<Longrightarrow> pixel_setRGB p r g b s = Inr t \<Longrightarrow> reachable t"
| reach_enable: "reachable s \<Longrightarrow> pixel_enable s = Inr t \<Longrightarrow> reachable t"
| reach_disable: "reachable s \<Longrightarrow> pixel_disable s = Inr t \<Longrightarrow> reachable t"

section \<open>Properties of the colour mapping\<close>

lemma gamma8_length: "length gamma8 = 256"
  by (simp add: gamma8_def)

lemma gamma8_sorted: "sorted gamma8"
  unfolding gamma8_def by (simp only: sorted2_simps) simp

lemma unat_u8_less: "unat (v :: uint8_t) < 256"
  using unsigned_less [of v, where ?'a = nat] by simp

lemma gamma8_read: "array_read gamma8 v = Inr (gamma8 ! unat v)"
  by (simp add: array_read_def gamma8_length unat_u8_less)

lemma gamma8_mono: "v \<le> v' \<Longrightarrow> gamma8 ! unat v \<le> gamma8 ! unat (v' :: uint8_t)"
  by (rule sorted_nth_mono [OF gamma8_sorted]) (simp_all add: word_le_nat_alt gamma8_length unat_u8_less)

lemma unat_duty: "unat (255 - v div d :: uint8_t) = 255 - unat v div unat d"
proof -
  have "v div d \<le> 255" using unat_u8_less [of "v div d"] by (simp add: word_le_nat_alt)
  then have "unat (255 - v div d) = unat (255 :: uint8_t) - unat (v div d)"
    by (rule unat_sub)
  then show ?thesis by (simp add: unat_div)
qed

lemma duty_mono: "v \<le> v' \<Longrightarrow> 255 - v' div d \<le> (255 - v div d :: uint8_t)"
  by (simp add: word_le_nat_alt unat_duty div_le_mono diff_le_mono2)

lemma pixel_setRGB_result:
  assumes "store_ok s" and "unat p < PIXEL_COUNT"
  shows "pixel_setRGB p r g b s =
    Inr (s\<lparr>rawValueR := (rawValueR s)[unat p := 255 - gamma8 ! unat r div 3],
           rawValueG := (rawValueG s)[unat p := 255 - gamma8 ! unat g div 2],
           rawValueB := (rawValueB s)[unat p := 255 - gamma8 ! unat b div 2]\<rparr>)"
  using assms
  by (simp add: pixel_setRGB_def set_rawValueR_def set_rawValueG_def set_rawValueB_def
      gamma8_read array_write_def store_ok_def)

lemma pixel_setRGB_fault:
  assumes "store_ok s" and "\<not> unat p < PIXEL_COUNT"
  shows "pixel_setRGB p r g b s = Inl OutOfBounds"
  using assms
  by (simp add: pixel_setRGB_def set_rawValueR_def gamma8_read array_write_def store_ok_def)

lemma store_ok_reset: "store_ok reset_state"
  by (simp add: store_ok_def reset_state_def)

text \<open>
  C9: for a pixel index below \<open>PIXEL_COUNT\<close> and any bytes \<open>r\<close>, \<open>g\<close>, \<open>b\<close>,
  \<open>pixel_setRGB\<close> cannot fail: the gamma table is read inside its 256 entries and
  the three colour arrays are written inside their \<open>PIXEL_COUNT\<close> entries, so the
  out-of-bounds branch is never taken. The function returns nothing but the updated
  store, whose arrays keep their size.
\<close>

theorem setRGB_cannot_fail:
  assumes "store_ok s" and "unat p < PIXEL_COUNT"
  shows "\<exists>t. pixel_setRGB p r g b s = Inr t \<and> store_ok t"
  using assms by (simp add: pixel_setRGB_result) (simp add: store_ok_def)

theorem setRGB_cannot_fail_witness:
  "store_ok reset_state \<and> unat (5 :: uint8_t) < PIXEL_COUNT \<and>
   (\<exists>t. pixel_setRGB 5 255 0 17 reset_state = Inr t \<and> store_ok t)"
  using setRGB_cannot_fail [of reset_state 5 255 0 17]
  by (simp add: store_ok_reset PIXEL_COUNT_def)

text \<open>
  C7, as stated: a higher input would give a value strictly further from 255. The
  gamma table maps both 0 and 1 to 0, so inputs 0 and 1 store the same value 255 on
  every channel.
\<close>

theorem setRGB_strict_counterexample:
  "(0 :: uint8_t) < 1 \<and>
   (case pixel_setRGB 0 0 0 0 reset_state of
      Inl e \<Rightarrow> False
    | Inr t \<Rightarrow>
       (case pixel_setRGB 0 1 1 1 reset_state of
          Inl e \<Rightarrow> False
        | Inr t' \<Rightarrow>
            rawValueR t ! 0 = 255 \<and> rawValueR t' ! 0 = 255 \<and>
            rawValueG t ! 0 = 255 \<and> rawValueG t' ! 0 = 255 \<and>
            rawValueB t ! 0 = 255 \<and> rawValueB t' ! 0 = 255))"
  by (simp add: pixel_setRGB_result store_ok_reset PIXEL_COUNT_def)
     (simp add: reset_state_def gamma8_def PIXEL_COUNT_def)

text \<open>
  C7, amended: for a pixel index below \<open>PIXEL_COUNT\<close>, the values \<open>pixel_setRGB\<close>
  stores for that pixel depend on the inputs alone, not on the store before the call
  (equal inputs give equal values from any two stores), and per channel a higher or
  equal input gives a value at least as far from 255 (a smaller or equal value).
\<close>

theorem setRGB_deterministic_monotone:
  assumes "store_ok s" and "store_ok s'" and "unat p < PIXEL_COUNT"
    and "r \<le> r'" and "g \<le> g'" and "b \<le> b'"
  shows "\<exists>t t'. pixel_setRGB p r g b s = Inr t \<and> pixel_setRGB p r' g' b' s' = Inr t' \<and>
           rawValueR t' ! unat p \<le> rawValueR t ! unat p \<and>
           rawValueG t' ! unat p \<le> rawValueG t ! unat p \<and>
           rawValueB t' ! unat p \<le> rawValueB t ! unat p \<and>
           (r = r' \<longrightarrow> rawValueR t' ! unat p = rawValueR t ! unat p) \<and>
           (g = g' \<longrightarrow> rawValueG t' ! unat p = rawValueG t ! unat p) \<and>
           (b = b' \<longrightarrow> rawValueB t' ! unat p = rawValueB t ! unat p)"
proof -
  have len: "unat p < length (rawValueR s)" "unat p < length (rawValueG s)"
    "unat p < length (rawValueB s)" "unat p < length (rawValueR s')"
    "unat p < length (rawValueG s')" "unat p < length (rawValueB s')"
    using assms(1,2,3) by (simp_all add: store_ok_def)
  show ?thesis
    using len duty_mono [OF gamma8_mono [OF assms(4)], of 3]
      duty_mono [OF gamma8_mono [OF assms(5)], of 2]
      duty_mono [OF gamma8_mono [OF assms(6)], of 2]
    by (simp add: pixel_setRGB_result [OF assms(1,3)] pixel_setRGB_result [OF assms(2,3)])
qed

theorem setRGB_deterministic_monotone_witness:
  "store_ok reset_state \<and>
   store_ok (reset_state\<lparr>rawValueR := [1, 2, 3, 4, 5, 6]\<rparr>) \<and>
   unat (3 :: uint8_t) < PIXEL_COUNT \<and>
   (100 :: uint8_t) \<le> 200 \<and> (7 :: uint8_t) \<le> 7 \<and> (0 :: uint8_t) \<le> 255 \<and>
   (\<exists>t t'. pixel_setRGB 3 100 7 0 reset_state = Inr t \<and>
      pixel_setRGB 3 200 7 255 (reset_state\<lparr>rawValueR := [1, 2, 3, 4, 5, 6]\<rparr>) = Inr t' \<and>
      rawValueR t' ! unat (3 :: uint8_t) \<le> rawValueR t ! unat (3 :: uint8_t) \<and>
      rawValueG t' ! unat (3 :: uint8_t) = rawValueG t ! unat (3 :: uint8_t) \<and>
      rawValueB t' ! unat (3 :: uint8_t) \<le> rawValueB t ! unat (3 :: uint8_t))"
  using setRGB_deterministic_monotone
    [of reset_state "reset_state\<lparr>rawValueR := [1, 2, 3, 4, 5, 6]\<rparr>" 3 100 200 7 7 0 255]
  by (auto simp: store_ok_def reset_state_def PIXEL_COUNT_def)

text \<open>
  C4, as stated: the three divisors would be pairwise distinct. At input 255 on all
  channels the stored green and blue values are both 128, which only the divisor 2
  produces, so no choice of three distinct divisors describes the stored values.
\<close>

theorem divisors_counterexample:
  "\<not> (\<exists>dR dG dB. dR \<noteq> dG \<and> dR \<noteq> dB \<and> dG \<noteq> dB \<and>
        (case pixel_setRGB 0 255 255 255 reset_state of
           Inl e \<Rightarrow> False
         | Inr t \<Rightarrow>
             unat (rawValueR t ! 0) = spec_duty dR 255 \<and>
             unat (rawValueG t ! 0) = spec_duty dG 255 \<and>
             unat (rawValueB t ! 0) = spec_duty dB 255))"
proof -
  have g255: "gamma8 ! 255 = 255"
    by (simp add: gamma8_def)
  have two: "d = 2" if "255 - 255 div d = (128 :: nat)" for d :: nat
  proof -
    from that have q: "255 div d = 127" by arith
    have "d \<noteq> 0" using q by (cases "d = 0") simp_all
    moreover have "d \<noteq> 1" using q by (cases "d = 1") simp_all
    moreover have "\<not> 3 \<le> d"
    proof
      assume "3 \<le> d"
      then have "255 div d \<le> 255 div 3" by (intro div_le_mono2) simp_all
      with q show False by simp
    qed
    ultimately show ?thesis by arith
  qed
  have res: "pixel_setRGB 0 255 255 255 reset_state =
      Inr (reset_state\<lparr>rawValueR := (rawValueR reset_state)[0 := 170],
                        rawValueG := (rawValueG reset_state)[0 := 128],
                        rawValueB := (rawValueB reset_state)[0 := 128]\<rparr>)"
    by (simp add: pixel_setRGB_result store_ok_reset PIXEL_COUNT_def g255)
  show ?thesis
    unfolding res
    by (auto simp: spec_duty_def g255 reset_state_def PIXEL_COUNT_def dest!: two)
qed

text \<open>
  C4, amended: for a pixel index below \<open>PIXEL_COUNT\<close> and any bytes, \<open>pixel_setRGB\<close>
  stores 255 - gamma(v) / d for each channel, with the fixed 256-entry monotonic
  table \<open>gamma8\<close> and the divisors 3 for red, 2 for green and 2 for blue (green and
  blue share one divisor), and changes nothing else.
\<close>

theorem setRGB_stores_duty:
  assumes "store_ok s" and "unat p < PIXEL_COUNT"
  shows "length gamma8 = 256 \<and> sorted gamma8 \<and>
         (\<exists>t. pixel_setRGB p r g b s = Inr t \<and>
           unat (rawValueR t ! unat p) = spec_duty 3 r \<and>
           unat (rawValueG t ! unat p) = spec_duty 2 g \<and>
           unat (rawValueB t ! unat p) = spec_duty 2 b \<and>
           t = s\<lparr>rawValueR := (rawValueR s)[unat p := rawValueR t ! unat p],
                 rawValueG := (rawValueG s)[unat p := rawValueG t ! unat p],
                 rawValueB := (rawValueB s)[unat p := rawValueB t ! unat p]\<rparr>)"
proof -
  have len: "unat p < length (rawValueR s)" "unat p < length (rawValueG s)"
    "unat p < length (rawValueB s)"
    using assms by (simp_all add: store_ok_def)
  show ?thesis
    using len unat_duty [of "gamma8 ! unat r" 3] unat_duty [of "gamma8 ! unat g" 2]
      unat_duty [of "gamma8 ! unat b" 2]
    by (simp add: pixel_setRGB_result [OF assms] spec_duty_def gamma8_length gamma8_sorted)
qed

theorem setRGB_stores_duty_witness:
  "store_ok reset_state \<and> unat (4 :: uint8_t) < PIXEL_COUNT \<and>
   (\<exists>t. pixel_setRGB 4 255 255 128 reset_state = Inr t \<and>
        rawValueR t ! 4 = 170 \<and> rawValueG t ! 4 = 128 \<and> rawValueB t ! 4 = 237 \<and>
        spec_duty 3 255 = 170 \<and> spec_duty 2 255 = 128 \<and> spec_duty 2 128 = 237)"
proof -
  have h: "unat (4 :: uint8_t) < PIXEL_COUNT"
    by (simp add: PIXEL_COUNT_def)
  have "\<exists>t. pixel_setRGB 4 255 255 128 reset_state = Inr t \<and>
           unat (rawValueR t ! unat (4 :: uint8_t)) = spec_duty 3 255 \<and>
           unat (rawValueG t ! unat (4 :: uint8_t)) = spec_duty 2 255 \<and>
           unat (rawValueB t ! unat (4 :: uint8_t)) = spec_duty 2 128"
    using setRGB_stores_duty [OF store_ok_reset h, of 255 255 128] by blast
  then obtain t where t: "pixel_setRGB 4 255 255 128 reset_state = Inr t"
    "unat (rawValueR t ! unat (4 :: uint8_t)) = spec_duty 3 255"
    "unat (rawValueG t ! unat (4 :: uint8_t)) = spec_duty 2 255"
    "unat (rawValueB t ! unat (4 :: uint8_t)) = spec_duty 2 128"
    by blast
  have d: "spec_duty 3 255 = 170" "spec_duty 2 255 = 128" "spec_duty 2 128 = 237"
    by (simp_all add: spec_duty_def gamma8_def)
  have "rawValueR t ! 4 = 170" "rawValueG t ! 4 = 128" "rawValueB t ! 4 = 237"
    using t(2,3,4) unfolding d by (simp_all add: word_unat_eq_iff)
  with t(1) d store_ok_reset h show ?thesis by simp
qed

section \<open>Properties of the interrupt handler\<close>

lemma unat_eqD: "unat (c :: uint8_t) = n \<Longrightarrow> c = of_nat n"
  by auto

lemma u8_below_6:
  assumes "unat (c :: uint8_t) < 6"
  shows "c = 0 \<or> c = 1 \<or> c = 2 \<or> c = 3 \<or> c = 4 \<or> c = 5"
proof -
  have "unat c = 0 \<or> unat c = 1 \<or> unat c = 2 \<or> unat c = 3 \<or> unat c = 4 \<or> unat c = 5"
    using assms by arith
  then show ?thesis
    by (elim disjE) (drule unat_eqD, simp)+
qed

lemma u8_below_5:
  assumes "unat (c :: uint8_t) < 5"
  shows "c = 0 \<or> c = 1 \<or> c = 2 \<or> c = 3 \<or> c = 4"
  using u8_below_6 [of c] assms by auto

lemmas isr_defs =
  pixel_isr_def pixel_isr_body_def deactivateAnodes_def ok_def charge_if_blue_def
  load_OCR2B_def load_OCR0A_def load_OCR0B_def phase_incr_def array_read_def
  invokeCallback_def PIXEL_COUNT_def activateAnode_def

lemma isr_step:
  assumes "store_ok s" and "seq_inv s"
  shows "\<exists>t. pixel_isr s = Inr t \<and> store_ok t \<and> seq_inv t \<and>
           unat (phase t) = (unat (phase s) + 1) mod 5 \<and>
           unat (currentPixel t) =
             (if unat (phase s) = 0 then (unat (currentPixel s) + 1) mod 6
              else unat (currentPixel s)) \<and>
           rawValueR t = rawValueR s \<and> rawValueG t = rawValueG s \<and>
           rawValueB t = rawValueB s \<and>
           frame_callbacks t = frame_callbacks s + (if unat (phase s) = 4 then 1 else 0)"
proof -
  have ph: "phase s = 0 \<or> phase s = 1 \<or> phase s = 2 \<or> phase s = 3 \<or> phase s = 4"
    using assms(2) by (simp add: seq_inv_def u8_below_5)
  have px: "currentPixel s = 0 \<or> currentPixel s = 1 \<or> currentPixel s = 2 \<or>
            currentPixel s = 3 \<or> currentPixel s = 4 \<or> currentPixel s = 5"
    using assms(2) by (simp add: seq_inv_def PIXEL_COUNT_def u8_below_6)
  from ph px assms(1) show ?thesis
    by (elim disjE) (simp_all add: isr_defs store_ok_def seq_inv_def)
qed

subsection \<open>Counting phases over many interrupts\<close>

lemma div5_step_a: "(n::nat) mod 5 = 0 \<Longrightarrow> (n + 5) div 5 = (n + 4) div 5 + 1"
  by presburger
lemma div5_step_b: "(n::nat) mod 5 \<noteq> 0 \<Longrightarrow> (n + 5) div 5 = (n + 4) div 5"
  by presburger
lemma div5_step_c: "(n::nat) mod 5 = 4 \<Longrightarrow> (n + 1) div 5 = n div 5 + 1"
  by presburger
lemma div5_step_d: "(n::nat) mod 5 \<noteq> 4 \<Longrightarrow> (n + 1) div 5 = n div 5"
  by presburger
lemma mod5_step: "((n::nat) mod 5 + 1) mod 5 = (n + 1) mod 5"
  by presburger

lemma pixel_count_step:
  fixes c p k :: nat
  shows "(if (p + k) mod 5 = 0
          then ((c + (p + k + 4) div 5 - (p + 4) div 5) mod 6 + 1) mod 6
          else (c + (p + k + 4) div 5 - (p + 4) div 5) mod 6) =
         (c + (p + Suc k + 4) div 5 - (p + 4) div 5) mod 6"
proof -
  have le: "(p + 4) div 5 \<le> (p + k + 4) div 5"
    by (rule div_le_mono) simp
  show ?thesis
  proof (cases "(p + k) mod 5 = 0")
    case True
    have "(p + Suc k + 4) div 5 = (p + k + 4) div 5 + 1"
      using div5_step_a [OF True] by (simp add: add.commute add.left_commute)
    then have "c + (p + Suc k + 4) div 5 - (p + 4) div 5 =
               Suc (c + (p + k + 4) div 5 - (p + 4) div 5)"
      using le by (simp add: Suc_diff_le)
    then show ?thesis using True by (simp add: mod_Suc_eq)
  next
    case False
    have "(p + Suc k + 4) div 5 = (p + k + 4) div 5"
      using div5_step_b [OF False] by (simp add: add.commute add.left_commute)
    then show ?thesis using False by simp
  qed
qed

lemma callback_count_step:
  fixes p k :: nat
  shows "(p + k) div 5 + (if (p + k) mod 5 = 4 then 1 else 0) = (p + Suc k) div 5"
  using div5_step_c [of "p + k"] div5_step_d [of "p + k"] by simp

lemma isr_iter_Suc_right:
  "isr_iter (Suc k) s = (case isr_iter k s of Inl e \<Rightarrow> Inl e | Inr t \<Rightarrow> pixel_isr t)"
proof (induction k arbitrary: s)
  case 0
  show ?case by (simp split: sum.splits)
next
  case (Suc k)
  show ?case
  proof (cases "pixel_isr s")
    case (Inl e)
    then show ?thesis by simp
  next
    case (Inr s')
    then show ?thesis using Suc.IH [of s'] by simp
  qed
qed

lemma isr_iter_closed:
  assumes "store_ok s" and "seq_inv s"
  shows "\<exists>t. isr_iter k s = Inr t \<and> store_ok t \<and> seq_inv t \<and>
           unat (phase t) = (unat (phase s) + k) mod 5 \<and>
           unat (currentPixel t) =
             (unat (currentPixel s) + (unat (phase s) + k + 4) div 5
                - (unat (phase s) + 4) div 5) mod 6 \<and>
           rawValueR t = rawValueR s \<and> rawValueG t = rawValueG s \<and>
           rawValueB t = rawValueB s \<and>
           frame_callbacks t = frame_callbacks s + (unat (phase s) + k) div 5"
proof (induction k)
  case 0
  have "unat (phase s) < 5" "unat (currentPixel s) < 6"
    using assms(2) by (simp_all add: seq_inv_def PIXEL_COUNT_def)
  then show ?case using assms by simp
next
  case (Suc k)
  then obtain t where t: "isr_iter k s = Inr t" "store_ok t" "seq_inv t"
      "unat (phase t) = (unat (phase s) + k) mod 5"
      "unat (currentPixel t) =
         (unat (currentPixel s) + (unat (phase s) + k + 4) div 5
            - (unat (phase s) + 4) div 5) mod 6"
      "rawValueR t = rawValueR s" "rawValueG t = rawValueG s" "rawValueB t = rawValueB s"
      "frame_callbacks t = frame_callbacks s + (unat (phase s) + k) div 5"
    by blast
  from isr_step [OF t(2,3)] obtain u where u: "pixel_isr t = Inr u" "store_ok u" "seq_inv u"
      "unat (phase u) = (unat (phase t) + 1) mod 5"
      "unat (currentPixel u) =
         (if unat (phase t) = 0 then (unat (currentPixel t) + 1) mod 6
          else unat (currentPixel t))"
      "rawValueR u = rawValueR t" "rawValueG u = rawValueG t" "rawValueB u = rawValueB t"
      "frame_callbacks u = frame_callbacks t + (if unat (phase t) = 4 then 1 else 0)"
    by blast
  have run: "isr_iter (Suc k) s = Inr u"
    using t(1) u(1) by (simp add: isr_iter_Suc_right del: isr_iter.simps)
  have ph: "unat (phase u) = (unat (phase s) + Suc k) mod 5"
    using u(4) t(4) mod5_step [of "unat (phase s) + k"] by simp
  have px: "unat (currentPixel u) =
      (unat (currentPixel s) + (unat (phase s) + Suc k + 4) div 5
         - (unat (phase s) + 4) div 5) mod 6"
    using u(5) unfolding t(4) t(5)
    by (simp only: pixel_count_step [of "unat (phase s)" k "unat (currentPixel s)"])
  have cb: "frame_callbacks u = frame_callbacks s + (unat (phase s) + Suc k) div 5"
    using u(9) t(4,9) callback_count_step [of "unat (phase s)" k] by simp
  show ?case
    using run u(2,3) ph px cb u(6,7,8) t(6,7,8) by simp
qed

subsection \<open>Ranges, visiting order and frame hook\<close>

lemma seq_inv_reset: "seq_inv reset_state"
  by (simp add: seq_inv_def reset_state_def PIXEL_COUNT_def)

text \<open>
  C10: the handler keeps \<open>phase\<close> within 0..4 and \<open>currentPixel\<close> within
  0..\<open>PIXEL_COUNT\<close>-1, one invocation at a time and hence over any number of
  invocations (in particular from phase 0 and pixel 0), it never faults there, and it
  leaves the three colour arrays as they were.
\<close>

theorem isr_keeps_ranges_and_store:
  assumes "store_ok s" and "seq_inv s"
  shows "(\<exists>t. pixel_isr s = Inr t \<and> seq_inv t \<and>
              rawValueR t = rawValueR s \<and> rawValueG t = rawValueG s \<and>
              rawValueB t = rawValueB s) \<and>
         (\<exists>t. isr_iter k s = Inr t \<and> seq_inv t \<and>
              rawValueR t = rawValueR s \<and> rawValueG t = rawValueG s \<and>
              rawValueB t = rawValueB s)"
  using isr_step [OF assms] isr_iter_closed [OF assms, of k] by blast

theorem isr_keeps_ranges_and_store_witness:
  "store_ok reset_state \<and> seq_inv reset_state \<and>
   phase reset_state = 0 \<and> currentPixel reset_state = 0 \<and>
   (\<exists>t. pixel_isr reset_state = Inr t \<and> seq_inv t \<and>
        rawValueR t = rawValueR reset_state \<and> rawValueG t = rawValueG reset_state \<and>
        rawValueB t = rawValueB reset_state) \<and>
   (\<exists>t. isr_iter 31 reset_state = Inr t \<and> seq_inv t \<and>
        rawValueR t = rawValueR reset_state \<and> rawValueG t = rawValueG reset_state \<and>
        rawValueB t = rawValueB reset_state)"
  using isr_keeps_ranges_and_store [of reset_state 31]
  by (simp add: store_ok_reset seq_inv_reset) (simp add: reset_state_def)

text \<open>
  C6, as stated: from pixel 0 and phase 0 the pairs visited would be (0,0), (0,1),
  (0,2), ... The handler increments \<open>currentPixel\<close> in its phase-0 case, so the pair
  after the first interrupt is (1,1), not (0,1).
\<close>

theorem visited_counterexample:
  "visited 1 reset_state = Inr (1, 1) \<and> spec_round_robin 1 = (0, 1) \<and>
   currentPixel reset_state = 0 \<and> phase reset_state = 0"
  by (simp add: visited_def spec_round_robin_def isr_defs reset_state_def)

text \<open>
  C6, amended: from pixel 0 and phase 0, each interrupt advances the phase by one
  (modulo 5), and the pixel index advances (modulo 6) in the interrupt that finds
  phase 0. After \<open>k\<close> interrupts the pair is ((k + 4) div 5 mod 6, k mod 5): the
  pixels are served in the order 1, 2, 3, 4, 5, 0, each through phases 0..4, with
  no skip and no repeat.
\<close>

theorem visited_order:
  assumes "store_ok s" and "currentPixel s = 0" and "phase s = 0"
  shows "visited k s = Inr (of_nat (((k + 4) div 5) mod 6), of_nat (k mod 5))"
proof -
  have inv: "seq_inv s" using assms(2,3) by (simp add: seq_inv_def PIXEL_COUNT_def)
  from isr_iter_closed [OF assms(1) inv, of k] obtain t where
    t: "isr_iter k s = Inr t" "unat (phase t) = k mod 5"
       "unat (currentPixel t) = ((k + 4) div 5) mod 6"
    using assms(2,3) by auto
  show ?thesis
    using t(1) unat_eqD [OF t(2)] unat_eqD [OF t(3)] by (simp add: visited_def)
qed

theorem visited_order_witness:
  "store_ok reset_state \<and> currentPixel reset_state = 0 \<and> phase reset_state = 0 \<and>
   visited 5 reset_state = Inr (1, 0) \<and> visited 6 reset_state = Inr (2, 1) \<and>
   visited 26 reset_state = Inr (0, 1) \<and> visited 30 reset_state = Inr (0, 0)"
  using visited_order [of reset_state 5] visited_order [of reset_state 6]
    visited_order [of reset_state 26] visited_order [of reset_state 30]
  by (simp add: store_ok_reset) (simp add: reset_state_def)

lemma callbacks_after_closed:
  assumes "store_ok s" and "seq_inv s"
  shows "callbacks_after k s = Inr (frame_callbacks s + (unat (phase s) + k) div 5)"
  using isr_iter_closed [OF assms, of k] by (auto simp: callbacks_after_def)

text \<open>
  C2, as stated: one frame-hook call per 5 * 6 = 30 interrupts. The handler calls the
  hook in every phase-4 case: from reset there is one call after 5 interrupts and
  there are six after 30.
\<close>

theorem callbacks_counterexample:
  "callbacks_after 0 reset_state = Inr 0 \<and> callbacks_after 5 reset_state = Inr 1 \<and>
   callbacks_after (5 * 6) reset_state = Inr 6"
proof -
  have "callbacks_after k reset_state = Inr (k div 5)" for k
    using callbacks_after_closed [OF store_ok_reset seq_inv_reset, of k]
    by (simp add: reset_state_def)
  then show ?thesis by simp
qed

text \<open>
  C2, amended: under fault-free timing the hook is called once each time a pixel
  completes phase 4, that is exactly once in any 5 consecutive interrupts and
  \<open>PIXEL_COUNT\<close> times in a pass of 5 * \<open>PIXEL_COUNT\<close> interrupts.
\<close>

theorem callbacks_every_five:
  assumes "store_ok s" and "seq_inv s"
  shows "callbacks_after k s = Inr (frame_callbacks s + (unat (phase s) + k) div 5) \<and>
         callbacks_after 5 s = Inr (frame_callbacks s + 1) \<and>
         callbacks_after (5 * PIXEL_COUNT) s = Inr (frame_callbacks s + PIXEL_COUNT)"
proof -
  have gen: "callbacks_after k s = Inr (frame_callbacks s + (unat (phase s) + k) div 5)" for k
    by (rule callbacks_after_closed [OF assms])
  have "unat (phase s) < 5" using assms(2) by (simp add: seq_inv_def)
  then have "(unat (phase s) + 5) div 5 = 1" "(unat (phase s) + 30) div 5 = 6"
    by presburger+
  then show ?thesis by (simp add: gen PIXEL_COUNT_def)
qed

theorem callbacks_every_five_witness:
  "store_ok reset_state \<and> seq_inv reset_state \<and>
   callbacks_after 12 reset_state = Inr 2 \<and>
   callbacks_after 5 reset_state = Inr 1 \<and>
   callbacks_after 30 reset_state = Inr 6"
  using callbacks_every_five [of reset_state 12]
  by (simp add: store_ok_reset seq_inv_reset PIXEL_COUNT_def) (simp add: reset_state_def)

subsection \<open>The blue compare register\<close>

text \<open>
  C5, as stated: the blue compare register would be loaded with the pixel's blue
  value in phase 2. Pixel 1 is given full blue (stored value 128) and the handler runs
  twice from reset, which leaves it at pixel 1 in phase 2; the phase-2 interrupt then
  writes 255 to \<open>OCR2B\<close>, not 128.
\<close>

theorem blue_compare_counterexample:
  "(case exec [pixel_setRGB 1 0 0 255, pixel_isr, pixel_isr] reset_state of
      Inl e \<Rightarrow> False
    | Inr s \<Rightarrow>
        phase s = 2 \<and> currentPixel s = 1 \<and> rawValueB s ! unat (currentPixel s) = 128 \<and>
        (case pixel_isr s of Inl e \<Rightarrow> False | Inr t \<Rightarrow> phase t = 3 \<and> OCR2B t = 255))"
  by (simp add: pixel_setRGB_result store_ok_reset PIXEL_COUNT_def)
     (simp add: isr_defs reset_state_def gamma8_def)

text \<open>
  C5, amended: for every pixel, the handler loads \<open>OCR2B\<close> with the pixel's stored
  blue value in phase 1 (the same interrupt that rests the pump and activates the
  anode), writes 255 to \<open>OCR2B\<close> in phase 2, and leaves \<open>OCR2B\<close> alone in phase 3.
\<close>

theorem blue_compare_phases:
  assumes "store_ok s" and "unat (currentPixel s) < PIXEL_COUNT"
  shows "(phase s = 1 \<longrightarrow>
            (\<exists>t. pixel_isr s = Inr t \<and> phase t = 2 \<and>
                 OCR2B t = rawValueB s ! unat (currentPixel s))) \<and>
         (phase s = 2 \<longrightarrow>
            (\<exists>t. pixel_isr s = Inr t \<and> phase t = 3 \<and> OCR2B t = 255)) \<and>
         (phase s = 3 \<longrightarrow>
            (\<exists>t. pixel_isr s = Inr t \<and> phase t = 4 \<and> OCR2B t = OCR2B s))"
  using assms by (simp add: isr_defs store_ok_def)


theorem blue_compare_phases_witness:
  "store_ok (reset_state\<lparr>rawValueB := [10, 20, 30, 40, 50, 60], currentPixel := 2\<rparr>) \<and>
   unat (2 :: uint8_t) < PIXEL_COUNT \<and>
   (\<exists>t. pixel_isr (reset_state\<lparr>rawValueB := [10, 20, 30, 40, 50, 60],
                                 currentPixel := 2, phase := 1\<rparr>) = Inr t \<and>
        phase t = 2 \<and> OCR2B t = 30) \<and>
   (\<exists>t. pixel_isr (reset_state\<lparr>rawValueB := [10, 20, 30, 40, 50, 60],
                                 currentPixel := 2, phase := 2, OCR2B := 30\<rparr>) = Inr t \<and>
        phase t = 3 \<and> OCR2B t = 255) \<and>
   (\<exists>t. pixel_isr (reset_state\<lparr>rawValueB := [10, 20, 30, 40, 50, 60],
                                 currentPixel := 2, phase := 3, OCR2B := 255\<rparr>) = Inr t \<and>
        phase t = 4 \<and> OCR2B t = 255)"
  using
    blue_compare_phases [of "reset_state\<lparr>rawValueB := [10, 20, 30, 40, 50, 60],
                                 currentPixel := 2, phase := 1\<rparr>"]
    blue_compare_phases [of "reset_state\<lparr>rawValueB := [10, 20, 30, 40, 50, 60],
                                 currentPixel := 2, phase := 2, OCR2B := 30\<rparr>"]
    blue_compare_phases [of "reset_state\<lparr>rawValueB := [10, 20, 30, 40, 50, 60],
                                 currentPixel := 2, phase := 3, OCR2B := 255\<rparr>"]
  by (simp add: store_ok_def reset_state_def PIXEL_COUNT_def)

section \<open>Properties of the lifecycle functions\<close>

lemma length_6E:
  assumes "length xs = 6"
  obtains a b c d e f where "xs = [a, b, c, d, e, f]"
proof -
  from assms have "length xs = Suc (Suc (Suc (Suc (Suc (Suc 0)))))" by simp
  then show ?thesis using that by (auto simp: length_Suc_conv)
qed

lemma upt_6: "[0..<6] = [0, 1, 2, 3, 4, 5]"
  by (simp add: upt_rec)

lemma gamma8_at_0: "gamma8 ! 0 = 0"
  by (simp add: gamma8_def)

lemma fill_6:
  assumes "length xs = 6"
  shows "xs[0 := v, 1 := v, 2 := v, 3 := v, 4 := v, 5 := v] = replicate 6 v"
proof -
  from assms obtain a b c d e f where "xs = [a, b, c, d, e, f]"
    by (rule length_6E)
  then show ?thesis by (simp add: numeral_eq_Suc)
qed

lemma pixel_SetAllRGB_off:
  assumes "store_ok s"
  shows "pixel_SetAllRGB 0 0 0 s =
    Inr (s\<lparr>rawValueR := replicate PIXEL_COUNT 255,
           rawValueG := replicate PIXEL_COUNT 255,
           rawValueB := replicate PIXEL_COUNT 255\<rparr>)"
proof -
  from assms have len: "length (rawValueR s) = 6" "length (rawValueG s) = 6"
      "length (rawValueB s) = 6"
    by (simp_all add: store_ok_def PIXEL_COUNT_def)
  have "pixel_SetAllRGB 0 0 0 s =
    Inr (s\<lparr>rawValueR := (rawValueR s)[0 := 255, 1 := 255, 2 := 255, 3 := 255, 4 := 255, 5 := 255],
           rawValueG := (rawValueG s)[0 := 255, 1 := 255, 2 := 255, 3 := 255, 4 := 255, 5 := 255],
           rawValueB := (rawValueB s)[0 := 255, 1 := 255, 2 := 255, 3 := 255, 4 := 255, 5 := 255]\<rparr>)"
    using len
    by (simp add: pixel_SetAllRGB_def FACE_COUNT_def upt_6 pixel_setRGB_def
        set_rawValueR_def set_rawValueG_def set_rawValueB_def gamma8_read gamma8_at_0
        array_write_def)
  then show ?thesis
    by (simp only: fill_6 [OF len(1)] fill_6 [OF len(2)] fill_6 [OF len(3)] PIXEL_COUNT_def)
qed

lemma anodes_all_off:
  "f(PIXEL1 := False, PIXEL2 := False, PIXEL3 := False,
     PIXEL4 := False, PIXEL5 := False, PIXEL6 := False) = (\<lambda>l. False)"
proof
  fix l show "(f(PIXEL1 := False, PIXEL2 := False, PIXEL3 := False,
     PIXEL4 := False, PIXEL5 := False, PIXEL6 := False)) l = False"
    by (cases l) simp_all
qed

lemma pixel_disable_result:
  "pixel_disable s =
     Inr (s\<lparr>anodes := (\<lambda>l. False), BLUE_SINK := True,
            TCCR0A := 0, TCCR0B := 0, TCCR2A := 0, TCCR2B := 0\<rparr>)"
  by (simp add: pixel_disable_def pixelTimerOff_def deactivateAnodes_def ok_def anodes_all_off)

lemma pixel_enable_result:
  assumes "store_ok s"
  shows "pixel_enable s =
     Inr (s\<lparr>rawValueR := replicate PIXEL_COUNT 255,
            rawValueG := replicate PIXEL_COUNT 255,
            rawValueB := replicate PIXEL_COUNT 255,
            OCR0A := 255, OCR0B := 255, OCR2B := 255, TCNT0 := 0, TCNT2 := 0,
            TCCR0A := BV WGM00 OR BV WGM01 OR BV COM0A1 OR BV COM0B1,
            TCCR0B := BV CS01,
            TCCR2A := BV COM2B1 OR BV WGM01 OR BV WGM00,
            TCCR2B := BV CS21\<rparr>)"
  by (simp add: pixel_enable_def pixel_SetAllRGB_off [OF assms] pixelTimersOn_def ok_def)

lemma store_ok_enabled:
  "store_ok (s\<lparr>rawValueR := replicate PIXEL_COUNT 255,
            rawValueG := replicate PIXEL_COUNT 255,
            rawValueB := replicate PIXEL_COUNT 255,
            OCR0A := 255, OCR0B := 255, OCR2B := 255, TCNT0 := 0, TCNT2 := 0,
            TCCR0A := a, TCCR0B := b, TCCR2A := c, TCCR2B := d\<rparr>)"
  by (simp add: store_ok_def)

text \<open>
  C8: \<open>pixel_enable\<close> and \<open>pixel_disable\<close> are idempotent. Called twice in a row,
  each leaves the whole modelled state (colour store, sequencer variables, anode and
  sink lines, timer registers) as one call leaves it.
\<close>

theorem enable_disable_idempotent:
  assumes "store_ok s"
  shows "(\<exists>t. pixel_enable s = Inr t \<and> exec [pixel_enable, pixel_enable] s = Inr t) \<and>
         (\<exists>t. pixel_disable s = Inr t \<and> exec [pixel_disable, pixel_disable] s = Inr t)"
proof
  show "\<exists>t. pixel_enable s = Inr t \<and> exec [pixel_enable, pixel_enable] s = Inr t"
    by (simp add: pixel_enable_result [OF assms] pixel_enable_result [OF store_ok_enabled])
  show "\<exists>t. pixel_disable s = Inr t \<and> exec [pixel_disable, pixel_disable] s = Inr t"
    by (simp add: pixel_disable_result)
qed

theorem enable_disable_idempotent_witness:
  "store_ok reset_state \<and>
   (\<exists>t. pixel_enable reset_state = Inr t \<and>
        exec [pixel_enable, pixel_enable] reset_state = Inr t \<and>
        OCR2B t = 255 \<and> rawValueB t = [255, 255, 255, 255, 255, 255]) \<and>
   (\<exists>t. pixel_disable reset_state = Inr t \<and>
        exec [pixel_disable, pixel_disable] reset_state = Inr t \<and> BLUE_SINK t)"
  using enable_disable_idempotent [of reset_state]
  by (auto simp: store_ok_reset pixel_enable_result pixel_disable_result PIXEL_COUNT_def
      numeral_eq_Suc)

text \<open>
  C3: a colour written with \<open>pixel_setRGB\<close> should survive \<open>pixel_disable\<close> followed
  by \<open>pixel_enable\<close>. It does not: \<open>pixel_enable\<close> begins with
  \<open>pixel_SetAllRGB(0, 0, 0)\<close>. Pixel 0 set to full red holds the red compare value
  170; after disable and enable it holds 255, the value for off.
\<close>

theorem enable_resets_store:
  "(case exec [pixel_setRGB 0 255 0 0] reset_state of
      Inl e \<Rightarrow> False | Inr t \<Rightarrow> rawValueR t ! 0 = 170) \<and>
   (case exec [pixel_setRGB 0 255 0 0, pixel_disable, pixel_enable] reset_state of
      Inl e \<Rightarrow> False | Inr t \<Rightarrow> rawValueR t ! 0 = 255)"
  by (simp add: pixel_setRGB_result store_ok_reset PIXEL_COUNT_def pixel_disable_result
      pixel_enable_result store_ok_def reset_state_def gamma8_def)

section \<open>The charge pump and the anodes\<close>

lemmas pump_defs =
  pump_inv_def pump_safe_def charging_def anode_active_def anode_rises_def

lemma isr_pump_inv:
  assumes "store_ok s" and "seq_inv s" and "pump_inv s" and "pixel_isr s = Inr t"
  shows "pump_inv t"
proof -
  have ph: "phase s = 0 \<or> phase s = 1 \<or> phase s = 2 \<or> phase s = 3 \<or> phase s = 4"
    using assms(2) by (simp add: seq_inv_def u8_below_5)
  have px: "currentPixel s = 0 \<or> currentPixel s = 1 \<or> currentPixel s = 2 \<or>
            currentPixel s = 3 \<or> currentPixel s = 4 \<or> currentPixel s = 5"
    using assms(2) by (simp add: seq_inv_def PIXEL_COUNT_def u8_below_6)
  from ph px assms(1,3,4) show ?thesis
    by (elim disjE) (auto simp: isr_defs store_ok_def pump_defs split: if_splits)
qed


lemma isr_trace_safe:
  assumes "store_ok s" and "seq_inv s" and "pump_inv s"
  shows "pixel_isr s = Inr (last (s # isr_visits s)) \<and>
         list_all pump_safe (isr_visits s) \<and>
         list_all (pump_step_ok s) (adjacent (s # isr_visits s))"
proof -
  have ph: "phase s = 0 \<or> phase s = 1 \<or> phase s = 2 \<or> phase s = 3 \<or> phase s = 4"
    using assms(2) by (simp add: seq_inv_def u8_below_5)
  have px: "currentPixel s = 0 \<or> currentPixel s = 1 \<or> currentPixel s = 2 \<or>
            currentPixel s = 3 \<or> currentPixel s = 4 \<or> currentPixel s = 5"
    using assms(2) by (simp add: seq_inv_def PIXEL_COUNT_def u8_below_6)
  from ph px assms(1,3) show ?thesis
    by (elim disjE) (simp_all add: isr_visits_def isr_defs store_ok_def pump_defs pump_step_ok_def)
qed


lemma pixel_init_reset:
  "pixel_init reset_state = Inr (reset_state\<lparr>BLUE_SINK := True, TIMSK0 := BV TOIE0\<rparr>)"
  by (simp add: pixel_init_def setupPixelPins_def setupTimers_def ok_def)

lemma reachable_inv:
  assumes "reachable s"
  shows "store_ok s \<and> seq_inv s \<and> pump_inv s"
  using assms
proof (induction rule: reachable.induct)
  case (reach_init s)
  then have "s = reset_state\<lparr>BLUE_SINK := True, TIMSK0 := BV TOIE0\<rparr>"
    by (simp add: pixel_init_reset)
  then show ?case
    by (simp add: store_ok_def seq_inv_def pump_defs reset_state_def PIXEL_COUNT_def)
next
  case (reach_isr s t)
  then show ?case
    using isr_step [of s] isr_pump_inv [of s t] by auto
next
  case (reach_setRGB s p r g b t)
  then have lt: "unat p < PIXEL_COUNT"
    using pixel_setRGB_fault [of s p r g b] by auto
  from reach_setRGB show ?case
    by (auto simp: pixel_setRGB_result [OF _ lt] store_ok_def seq_inv_def pump_defs)
next
  case (reach_enable s t)
  then show ?case
    by (auto simp: pixel_enable_result store_ok_def seq_inv_def pump_defs)
next
  case (reach_disable s t)
  then show ?case
    by (auto simp: pixel_disable_result store_ok_def seq_inv_def pump_defs)
qed

lemma pump_inv_safe: "pump_inv s \<Longrightarrow> pump_safe s"
  by (auto simp: pump_inv_def pump_safe_def charging_def split: if_splits)

text \<open>
  C1: in every reachable state of the sequencer, and in every state a run of the
  handler passes through from there, the charge pump is not charging while an anode
  is active. The run completes, charging begins only in a phase-0 run with all
  anodes low, and an anode is raised only in a phase-1 run, by a statement that
  finds the sink already back at idle (high).
\<close>

theorem pump_never_charges_active_anode:
  assumes "reachable s"
  shows "pump_safe s \<and>
         pixel_isr s = Inr (last (s # isr_visits s)) \<and>
         list_all pump_safe (isr_visits s) \<and>
         list_all (pump_step_ok s) (adjacent (s # isr_visits s))"
  using reachable_inv [OF assms] isr_trace_safe [of s] pump_inv_safe [of s] by blast

theorem pump_never_charges_active_anode_witness:
  "\<exists>s0 s1 s2.
     pixel_init reset_state = Inr s0 \<and> pixel_isr s0 = Inr s1 \<and> pixel_isr s1 = Inr s2 \<and>
     reachable s1 \<and> phase s1 = 1 \<and> charging s1 \<and> \<not> anode_active s1 \<and>
     length (isr_visits s1) = 4 \<and> anode_active s2 \<and> \<not> charging s2 \<and>
     pump_safe s1 \<and>
     pixel_isr s1 = Inr (last (s1 # isr_visits s1)) \<and>
     list_all pump_safe (isr_visits s1) \<and>
     list_all (pump_step_ok s1) (adjacent (s1 # isr_visits s1))"
proof -
  obtain s0 where s0: "pixel_init reset_state = Inr s0"
    by (simp add: pixel_init_reset)
  have r0: "reachable s0" by (rule reach_init [OF s0])
  from isr_step [of s0] reachable_inv [OF r0] obtain s1 where s1: "pixel_isr s0 = Inr s1"
    by blast
  have r1: "reachable s1" by (rule reach_isr [OF r0 s1])
  from isr_step [of s1] reachable_inv [OF r1] obtain s2 where s2: "pixel_isr s1 = Inr s2"
    by blast
  have s0_eq: "s0 = reset_state\<lparr>BLUE_SINK := True, TIMSK0 := BV TOIE0\<rparr>"
    using s0 by (simp add: pixel_init_reset)
  have obs1: "phase s1 = 1 \<and> charging s1 \<and> \<not> anode_active s1 \<and> currentPixel s1 = 1 \<and>
              length (rawValueB s1) = 6"
    using s1 unfolding s0_eq
    by (auto simp: isr_defs pump_defs reset_state_def)
  have len: "length (isr_visits s1) = 4"
    using obs1 by (simp add: isr_visits_def isr_defs)
  have obs2: "anode_active s2 \<and> \<not> charging s2"
    using s2 obs1 by (auto simp: isr_defs pump_defs)
  show ?thesis
    using s0 s1 s2 r1 obs1 len obs2 pump_never_charges_active_anode [OF r1] by blast
qed

end
